theory Spec2Isabelle
  imports Main "HOL-Library.Multiset"
begin

section \<open>The error-log generator \<^verbatim>\<open>tools/elog-gen.py\<close>\<close>

text \<open>
  A shallow embedding of the functions of \<^verbatim>\<open>tools/elog-gen.py\<close>: the ordering of
  errors by inheritance, the validation of parent references, the type map, the
  derivation of the metadata file name, the loader of one error document and the
  driver \<^verbatim>\<open>gen_elog_hpp\<close>.

  Python strings are \<^typ>\<open>string\<close>, lists are HOL lists, a \<^verbatim>\<open>dict\<close> is a map
  \<open>'k \<rightharpoonup> 'v\<close>, and \<^verbatim>\<open>None\<close> as a dictionary value is the inner \<^const>\<open>None\<close> of
  an option. An uncaught exception and \<^verbatim>\<open>exit(1)\<close> are values of \<open>py_error\<close>.
\<close>

subsection \<open>Exceptions\<close>

datatype py_error =
    KeyError string
  | IndexError
  | SystemExit nat
  | UnboundLocalError string
  | TemplateError string

subsection \<open>Ordering errors by inheritance\<close>

text \<open>
  \<^verbatim>\<open>i_parents\<close> maps an error name to its parent: \<open>i_parents e = None\<close> when the
  dictionary has no key \<open>e\<close> (the lookup raises \<^verbatim>\<open>KeyError\<close>), \<open>Some None\<close> when the
  stored value is \<^verbatim>\<open>None\<close>, \<open>Some (Some p)\<close> when it is the string \<open>p\<close>.
\<close>

type_synonym parents = "string \<rightharpoonup> string option"

text \<open>
  Lines 24 to 28: the first loop looks for an error whose parent \<^verbatim>\<open>is not None\<close> and
  stops at the first one.
\<close>

fun has_inheritance :: "string list \<Rightarrow> parents \<Rightarrow> py_error + bool" where
  "has_inheritance [] i_parents = Inr False"
| "has_inheritance (error # rest) i_parents =
     (case i_parents error of
        None \<Rightarrow> Inl (KeyError error)
      | Some None \<Rightarrow> has_inheritance rest i_parents
      | Some (Some p) \<Rightarrow> Inr True)"

text \<open>
  Lines 35 to 42: one pass of the \<^verbatim>\<open>for\<close> loop over \<^verbatim>\<open>i_errors\<close>. The test
  \<^verbatim>\<open>not i_parents[error]\<close> is Python truthiness: it holds for \<^verbatim>\<open>None\<close> and for the
  empty string.
\<close>

fun order_pass :: "string list \<Rightarrow> parents \<Rightarrow> string list \<Rightarrow> py_error + string list" where
  "order_pass [] i_parents errors = Inr errors"
| "order_pass (error # rest) i_parents errors =
     (if error \<in> set errors then order_pass rest i_parents errors
      else (case i_parents error of
              None \<Rightarrow> Inl (KeyError error)
            | Some None \<Rightarrow> order_pass rest i_parents (errors @ [error])
            | Some (Some p) \<Rightarrow>
                if p = [] \<or> p \<in> set errors
                then order_pass rest i_parents (errors @ [error])
                else order_pass rest i_parents errors))"

text \<open>
  Line 34: the \<^verbatim>\<open>while\<close> loop restarts the pass until as many errors are placed as
  were given. The loop need not end, so its result is an option: \<^const>\<open>None\<close> is a run
  that never returns.
\<close>

partial_function (option) order_loop ::
  "string list \<Rightarrow> parents \<Rightarrow> string list \<Rightarrow> (py_error + string list) option" where
  "order_loop i_errors i_parents errors =
     (if length errors < length i_errors
      then (case order_pass i_errors i_parents errors of
              Inl e \<Rightarrow> Some (Inl e)
            | Inr errors' \<Rightarrow> order_loop i_errors i_parents errors')
      else Some (Inr errors))"

declare order_loop.simps [code]

definition order_inherited_errors ::
  "string list \<Rightarrow> parents \<Rightarrow> (py_error + string list) option" where
  "order_inherited_errors i_errors i_parents =
     (case has_inheritance i_errors i_parents of
        Inl e \<Rightarrow> Some (Inl e)
      | Inr True \<Rightarrow> order_loop i_errors i_parents []
      | Inr False \<Rightarrow> Some (Inr i_errors))"

subsection \<open>Validating parent references\<close>

text \<open>
  Lines 50 to 56. The loop runs over \<^verbatim>\<open>i_errors\<close> and tests membership in the whole
  list, so the loop function carries both the rest of the list and the list. The
  result is the lines printed and the value returned.
\<close>

fun check_loop ::
  "string list \<Rightarrow> string list \<Rightarrow> parents \<Rightarrow> py_error + (string list \<times> bool)" where
  "check_loop [] i_errors i_parents = Inr ([], True)"
| "check_loop (error # rest) i_errors i_parents =
     (case i_parents error of
        None \<Rightarrow> Inl (KeyError error)
      | Some None \<Rightarrow> check_loop rest i_errors i_parents
      | Some (Some p) \<Rightarrow>
          if p \<noteq> [] \<and> p \<notin> set i_errors
          then Inr ([error @ '' inherits '' @ p @ '' but the latter is not defined''], False)
          else check_loop rest i_errors i_parents)"

definition check_error_inheritance ::
  "string list \<Rightarrow> parents \<Rightarrow> py_error + (string list \<times> bool)" where
  "check_error_inheritance i_errors i_parents = check_loop i_errors i_errors i_parents"

subsection \<open>Parent relation of a batch\<close>

text \<open>
  The parent the code honours: a stored value that is neither \<^verbatim>\<open>None\<close> nor the
  empty string. \<open>parent_edges\<close> lists the pairs (child, parent) of a batch, and a batch
  has no parent cycle when this finite relation is acyclic.
\<close>

definition parent_of :: "parents \<Rightarrow> string \<Rightarrow> string option" where
  "parent_of i_parents error =
     (case i_parents error of
        Some (Some p) \<Rightarrow> if p = [] then None else Some p
      | _ \<Rightarrow> None)"

definition parent_edges :: "string list \<Rightarrow> parents \<Rightarrow> (string \<times> string) list" where
  "parent_edges i_errors i_parents =
     List.map_filter (\<lambda>e. map_option (Pair e) (parent_of i_parents e)) i_errors"

definition no_parent_cycles :: "string list \<Rightarrow> parents \<Rightarrow> bool" where
  "no_parent_cycles i_errors i_parents = acyclic (set (parent_edges i_errors i_parents))"

text \<open>
  \<open>parents_first\<close>: in the list, the honoured parent of every element stands at a
  smaller index.
\<close>

definition parents_first :: "parents \<Rightarrow> string list \<Rightarrow> bool" where
  "parents_first i_parents xs =
     (\<forall>j < length xs. \<forall>p. parent_of i_parents (xs ! j) = Some p \<longrightarrow>
        (\<exists>i < j. xs ! i = p))"

subsection \<open>Strings\<close>

text \<open>
  \<^verbatim>\<open>s.replace(old, new)\<close> replaces the occurrences of \<^verbatim>\<open>old\<close> from left to right, without
  overlap; for an empty \<^verbatim>\<open>old\<close> Python puts \<^verbatim>\<open>new\<close> before every character and at the
  end.
\<close>

function py_replace :: "string \<Rightarrow> string \<Rightarrow> string \<Rightarrow> string" where
  "py_replace old new [] = (if old = [] then new else [])"
| "py_replace old new (c # cs) =
     (if old = [] then new @ c # py_replace old new cs
      else if take (length old) (c # cs) = old
      then new @ py_replace old new (drop (length old) (c # cs))
      else c # py_replace old new cs)"
  by pat_completeness auto
termination
  by (relation "measure (\<lambda>(old, new, s). length s)") auto

text \<open>
  \<^verbatim>\<open>s.split('=')[0]\<close>: the part of \<^verbatim>\<open>s\<close> before the first separator, the whole of
  \<^verbatim>\<open>s\<close> when there is none.
\<close>

definition split_first :: "char \<Rightarrow> string \<Rightarrow> string" where
  "split_first sep s = takeWhile (\<lambda>c. c \<noteq> sep) s"

text \<open>
  \<^verbatim>\<open>s.strip()\<close> removes leading and trailing whitespace: the characters for which
  \<^verbatim>\<open>str.isspace\<close> holds, U+0009 to U+000D, U+001C to U+0020, U+0085, U+00A0, U+1680,
  U+2000 to U+200A, U+2028, U+2029, U+202F, U+205F and U+3000. A string is the list of
  the bytes of its UTF-8 encoding, so each of them is the byte sequence that encodes
  it. \<open>lstrip\<close> removes such sequences from the front as long as one is there; the end
  is stripped on the reversed string.
\<close>

definition py_whitespace :: "string list" where
  "py_whitespace =
     [[CHR 0x09], [CHR 0x0A], [CHR 0x0B], [CHR 0x0C], [CHR 0x0D],
      [CHR 0x1C], [CHR 0x1D], [CHR 0x1E], [CHR 0x1F], [CHR 0x20],
      [CHR 0xC2, CHR 0x85], [CHR 0xC2, CHR 0xA0],
      [CHR 0xE1, CHR 0x9A, CHR 0x80],
      [CHR 0xE2, CHR 0x80, CHR 0x80], [CHR 0xE2, CHR 0x80, CHR 0x81],
      [CHR 0xE2, CHR 0x80, CHR 0x82], [CHR 0xE2, CHR 0x80, CHR 0x83],
      [CHR 0xE2, CHR 0x80, CHR 0x84], [CHR 0xE2, CHR 0x80, CHR 0x85],
      [CHR 0xE2, CHR 0x80, CHR 0x86], [CHR 0xE2, CHR 0x80, CHR 0x87],
      [CHR 0xE2, CHR 0x80, CHR 0x88], [CHR 0xE2, CHR 0x80, CHR 0x89],
      [CHR 0xE2, CHR 0x80, CHR 0x8A],
      [CHR 0xE2, CHR 0x80, CHR 0xA8], [CHR 0xE2, CHR 0x80, CHR 0xA9],
      [CHR 0xE2, CHR 0x80, CHR 0xAF],
      [CHR 0xE2, CHR 0x81, CHR 0x9F],
      [CHR 0xE3, CHR 0x80, CHR 0x80]]"

function lstrip :: "string list \<Rightarrow> string \<Rightarrow> string" where
  "lstrip ws s =
     (case find (\<lambda>w. w \<noteq> [] \<and> take (length w) s = w) ws of
        None \<Rightarrow> s
      | Some w \<Rightarrow> lstrip ws (drop (length w) s))"
  by pat_completeness auto
termination
proof (relation "measure (\<lambda>(ws, s). length s)")
  show "wf (measure (\<lambda>(ws, s). length s))" by simp
next
  fix ws :: "string list" and s w :: string
  assume "find (\<lambda>w. w \<noteq> [] \<and> take (length w) s = w) ws = Some w"
  then have "w \<noteq> []" and "take (length w) s = w"
    by (auto simp: find_Some_iff)
  then have "s \<noteq> []" by auto
  with \<open>w \<noteq> []\<close> show "((ws, drop (length w) s), (ws, s)) \<in> measure (\<lambda>(ws, s). length s)"
    by simp
qed

declare lstrip.simps [simp del]

definition py_strip :: "string \<Rightarrow> string" where
  "py_strip s = rev (lstrip (map rev py_whitespace) (rev (lstrip py_whitespace s)))"

subsection \<open>Metadata file name and type map\<close>

text \<open>Lines 80 to 84.\<close>

definition get_meta_yaml_file :: "string \<Rightarrow> string" where
  "get_meta_yaml_file i_error_yaml_file = py_replace ''errors'' ''metadata'' i_error_yaml_file"

text \<open>Lines 87 to 99: a lookup in a dictionary literal; a missing key raises \<^verbatim>\<open>KeyError\<close>.\<close>

definition typeMap :: "(string \<times> string) list" where
  "typeMap =
     [(''int16'', ''int16_t''),
      (''int32'', ''int32_t''),
      (''int64'', ''int64_t''),
      (''uint16'', ''uint16_t''),
      (''uint32'', ''uint32_t''),
      (''uint64'', ''uint64_t''),
      (''double'', ''double''),
      (''string'', ''const char*'')]"

definition get_cpp_type :: "string \<Rightarrow> py_error + string" where
  "get_cpp_type i_type =
     (case map_of typeMap i_type of
        None \<Rightarrow> Inl (KeyError i_type)
      | Some t \<Rightarrow> Inr t)"

subsection \<open>Documents and the model\<close>

text \<open>
  The parsed YAML documents, typed by the keys the loader reads. A record of an error
  document has the optional keys \<^verbatim>\<open>name\<close> and \<^verbatim>\<open>description\<close>; a record of a metadata
  document has \<^verbatim>\<open>name\<close> and the optional keys \<^verbatim>\<open>level\<close>, \<^verbatim>\<open>inherits\<close> and \<^verbatim>\<open>meta\<close>; an
  element of \<^verbatim>\<open>meta\<close> has \<^verbatim>\<open>str\<close>, \<^verbatim>\<open>type\<close> and the optional key \<^verbatim>\<open>process\<close>, whose value
  is any scalar.
\<close>

datatype yaml_value = YBool bool | YInt int | YStr string | YNull

text \<open>\<^verbatim>\<open>True == v\<close> in Python: the boolean true and the integer one are equal to it.\<close>

fun eq_True :: "yaml_value \<Rightarrow> bool" where
  "eq_True (YBool b) = b"
| "eq_True (YInt n) = (n = 1)"
| "eq_True (YStr s) = False"
| "eq_True YNull = False"

record error_entry =
  e_name :: "string option"
  e_description :: "string option"

record meta_field =
  f_str :: string
  f_type :: string
  f_process :: "yaml_value option"

record meta_entry =
  m_name :: string
  m_level :: "string option"
  m_inherits :: "string list option"
  m_meta :: "meta_field list option"

text \<open>
  The seven containers of \<^verbatim>\<open>gen_elog_hpp\<close> (lines 117 to 123), which
  \<^verbatim>\<open>get_elog_data\<close> updates in place, and the lines printed so far.
\<close>

record elog_data =
  errors :: "string list"
  error_msg :: "string \<rightharpoonup> string"
  error_lvl :: "string \<rightharpoonup> string"
  meta :: "string \<rightharpoonup> string list"
  meta_data :: "string \<rightharpoonup> (string \<rightharpoonup> string)"
  parents :: "string \<rightharpoonup> string option"
  metadata_process :: "string \<rightharpoonup> string"

record py_state =
  data :: elog_data
  stdout :: "string list"

text \<open>
  What the program reads from outside: the discovered documents (the result of
  \<^verbatim>\<open>get_error_yaml_files\<close>, a dictionary from path to namespace in insertion order),
  \<^verbatim>\<open>os.path.isfile\<close>, \<^verbatim>\<open>yaml.safe_load(open(path))\<close> for the two kinds of document,
  \<^verbatim>\<open>str\<close> of a record of an error document, and the mako template: loading a
  template gives a rendering function or fails, and so does rendering.
\<close>

record env =
  get_error_yaml_files :: "string \<Rightarrow> string \<Rightarrow> (string \<times> string) list"
  isfile :: "string \<Rightarrow> bool"
  load_errors :: "string \<Rightarrow> error_entry list"
  load_metadata :: "string \<Rightarrow> meta_entry list"
  str_entry :: "error_entry \<Rightarrow> string"
  Template :: "string \<Rightarrow> py_error + (elog_data \<Rightarrow> py_error + string)"

subsection \<open>Loading one error document\<close>

text \<open>
  Lines 240 to 247, the body of the loop over \<^verbatim>\<open>match['meta']\<close>. The entry of
  \<^verbatim>\<open>meta_data\<close> is a dictionary filled key by key; \<^verbatim>\<open>get_cpp_type\<close> may raise after the
  first two keys are stored.
\<close>

definition load_meta_field ::
  "string \<Rightarrow> meta_field \<Rightarrow> string list \<times> elog_data \<Rightarrow>
   (py_error \<times> elog_data) + (string list \<times> elog_data)" where
  "load_meta_field fullname i = (\<lambda>(tmp_meta, d).
     let str_short = split_first CHR ''='' (f_str i);
         entry = [''str'' \<mapsto> f_str i, ''str_short'' \<mapsto> str_short]
     in case get_cpp_type (f_type i) of
          Inl e \<Rightarrow> Inl (e, d\<lparr>meta_data := (meta_data d)(str_short \<mapsto> entry)\<rparr>)
        | Inr t \<Rightarrow>
            Inr (tmp_meta @ [str_short],
                 d\<lparr>meta_data := (meta_data d)(str_short \<mapsto> entry(''type'' \<mapsto> t)),
                   metadata_process :=
                     (case f_process i of
                        None \<Rightarrow> metadata_process d
                      | Some v \<Rightarrow>
                          if eq_True v
                          then (metadata_process d)(str_short \<mapsto> fullname @ ''.'' @ str_short)
                          else metadata_process d)\<rparr>))"

fun load_meta_fields ::
  "string \<Rightarrow> meta_field list \<Rightarrow> string list \<times> elog_data \<Rightarrow>
   (py_error \<times> elog_data) + (string list \<times> elog_data)" where
  "load_meta_fields fullname [] st = Inr st"
| "load_meta_fields fullname (i # rest) st =
     (case load_meta_field fullname i st of
        Inl f \<Rightarrow> Inl f
      | Inr st' \<Rightarrow> load_meta_fields fullname rest st')"

text \<open>
  Lines 197 to 248, the body of the loop over the records of the error document.
  A failure carries the exception and the state at that moment.
\<close>

definition load_error ::
  "env \<Rightarrow> string \<Rightarrow> string \<Rightarrow> string \<Rightarrow> error_entry \<Rightarrow> py_state \<Rightarrow>
   (py_error \<times> py_state) + py_state" where
  "load_error ev i_elog_yaml i_elog_meta_yaml i_namespace error s =
     (case e_name error of
        None \<Rightarrow>
          Inl (SystemExit 1,
               s\<lparr>stdout := stdout s @
                   [''Error - Did not find name in entry '' @ str_entry ev error @
                    '' in file '' @ i_elog_yaml @ '' '']\<rparr>)
      | Some nm \<Rightarrow>
          let fullname = py_replace ''/'' ''.'' i_namespace @ ''.'' @ nm;
              d0 = data s;
              d1 = d0\<lparr>errors := errors d0 @ [fullname]\<rparr>;
              d2 = (case e_description error of
                      None \<Rightarrow> d1
                    | Some desc \<Rightarrow> d1\<lparr>error_msg := (error_msg d1)(fullname \<mapsto> py_strip desc)\<rparr>);
              d3 = d2\<lparr>error_lvl := (error_lvl d2)(fullname \<mapsto> ''ERR''),
                      parents := (parents d2)(fullname \<mapsto> None)\<rparr>
          in if \<not> isfile ev i_elog_meta_yaml then Inr (s\<lparr>data := d3\<rparr>)
             else (case find (\<lambda>meta_entry. m_name meta_entry = nm)
                          (load_metadata ev i_elog_meta_yaml) of
                     None \<Rightarrow>
                       Inr (s\<lparr>data := d3,
                              stdout := stdout s @
                                [''Error - Did not find error named '' @ nm @ '' in '' @
                                 i_elog_meta_yaml]\<rparr>)
                   | Some match \<Rightarrow>
                       let d4 = d3\<lparr>error_lvl := (error_lvl d3)
                                  (fullname \<mapsto> (case m_level match of None \<Rightarrow> ''ERR'' | Some l \<Rightarrow> l))\<rparr>
                       in (case m_inherits match of
                             Some [] \<Rightarrow> Inl (IndexError, s\<lparr>data := d4\<rparr>)
                           | inh \<Rightarrow>
                               let d5 = (case inh of
                                           Some (p # _) \<Rightarrow> d4\<lparr>parents := (parents d4)(fullname \<mapsto> Some p)\<rparr>
                                         | _ \<Rightarrow> d4)
                               in (case load_meta_fields fullname
                                          (case m_meta match of None \<Rightarrow> [] | Some fs \<Rightarrow> fs)
                                          ([], d5) of
                                     Inl (e, d6) \<Rightarrow> Inl (e, s\<lparr>data := d6\<rparr>)
                                   | Inr (tmp_meta, d6) \<Rightarrow>
                                       Inr (s\<lparr>data := d6\<lparr>meta := (meta d6)(fullname \<mapsto> tmp_meta)\<rparr>\<rparr>)))))"

fun load_error_list ::
  "env \<Rightarrow> string \<Rightarrow> string \<Rightarrow> string \<Rightarrow> error_entry list \<Rightarrow> py_state \<Rightarrow>
   (py_error \<times> py_state) + py_state" where
  "load_error_list ev i_elog_yaml i_elog_meta_yaml i_namespace [] s = Inr s"
| "load_error_list ev i_elog_yaml i_elog_meta_yaml i_namespace (error # rest) s =
     (case load_error ev i_elog_yaml i_elog_meta_yaml i_namespace error s of
        Inl f \<Rightarrow> Inl f
      | Inr s' \<Rightarrow> load_error_list ev i_elog_yaml i_elog_meta_yaml i_namespace rest s')"

text \<open>Lines 175 to 248.\<close>

definition get_elog_data ::
  "env \<Rightarrow> string \<Rightarrow> string \<Rightarrow> string \<Rightarrow> py_state \<Rightarrow> (py_error \<times> py_state) + py_state" where
  "get_elog_data ev i_elog_yaml i_elog_meta_yaml i_namespace s =
     load_error_list ev i_elog_yaml i_elog_meta_yaml i_namespace (load_errors ev i_elog_yaml) s"

subsection \<open>The driver\<close>

text \<open>
  Lines 127 to 152, the loop over the discovered documents. \<^verbatim>\<open>template_path\<close> is
  assigned inside the loop.
\<close>

fun load_documents ::
  "env \<Rightarrow> string \<Rightarrow> (string \<times> string) list \<Rightarrow> py_state \<Rightarrow> (py_error \<times> py_state) + py_state" where
  "load_documents ev template_path [] s = Inr s"
| "load_documents ev template_path ((error_yaml, namespace) # rest) s =
     (if \<not> isfile ev error_yaml
      then Inl (SystemExit 1,
                s\<lparr>stdout := stdout s @ [''Cannot find input yaml file '' @ error_yaml]\<rparr>)
      else if \<not> isfile ev template_path
      then Inl (SystemExit 1,
                s\<lparr>stdout := stdout s @ [''Cannot find input template file '' @ template_path]\<rparr>)
      else (case get_elog_data ev error_yaml (get_meta_yaml_file error_yaml) namespace s of
              Inl f \<Rightarrow> Inl f
            | Inr s' \<Rightarrow> load_documents ev template_path rest s'))"

text \<open>
  The outcome of a run: the lines printed, the exception that ended it (\<^verbatim>\<open>exit(1)\<close> is
  \<open>SystemExit 1\<close>) or \<^const>\<open>None\<close> for a normal end, and the output file, as path and
  content, when it was opened for writing.
\<close>

record run =
  printed :: "string list"
  raised :: "py_error option"
  written :: "(string \<times> string) option"

definition initial_state :: py_state where
  "initial_state =
     \<lparr>data = \<lparr>errors = [], error_msg = Map.empty, error_lvl = Map.empty, meta = Map.empty,
              meta_data = Map.empty, parents = Map.empty, metadata_process = Map.empty\<rparr>,
      stdout = []\<rparr>"

text \<open>
  Lines 102 to 173. The result is \<^const>\<open>None\<close> when the ordering never returns. With no
  document discovered \<^verbatim>\<open>template_path\<close> is unbound at line 163. The file is opened
  before the template is rendered, so a failing rendering leaves an empty file.
\<close>

definition gen_elog_hpp ::
  "env \<Rightarrow> string \<Rightarrow> string \<Rightarrow> string \<Rightarrow> string \<Rightarrow> string \<Rightarrow> run option" where
  "gen_elog_hpp ev i_yaml_dir i_test_dir i_output_hpp i_template_dir i_elog_mako =
     (let error_yamls = get_error_yaml_files ev i_yaml_dir i_test_dir;
          template_path = i_template_dir @ ''/'' @ i_elog_mako
      in case load_documents ev template_path error_yamls initial_state of
           Inl (e, s) \<Rightarrow> Some \<lparr>printed = stdout s, raised = Some e, written = None\<rparr>
         | Inr s \<Rightarrow>
             (case check_error_inheritance (errors (data s)) (parents (data s)) of
                Inl e \<Rightarrow> Some \<lparr>printed = stdout s, raised = Some e, written = None\<rparr>
              | Inr (lines, ok) \<Rightarrow>
                  if \<not> ok
                  then Some \<lparr>printed = stdout s @ lines @
                                [''Error - failed to validate error inheritance''],
                              raised = Some (SystemExit 1), written = None\<rparr>
                  else (case order_inherited_errors (errors (data s)) (parents (data s)) of
                          None \<Rightarrow> None
                        | Some (Inl e) \<Rightarrow>
                            Some \<lparr>printed = stdout s @ lines, raised = Some e, written = None\<rparr>
                        | Some (Inr ordered) \<Rightarrow>
                            if error_yamls = []
                            then Some \<lparr>printed = stdout s @ lines,
                                        raised = Some (UnboundLocalError ''template_path''),
                                        written = None\<rparr>
                            else (case Template ev template_path of
                                    Inl e \<Rightarrow>
                                      Some \<lparr>printed = stdout s @ lines, raised = Some e,
                                            written = None\<rparr>
                                  | Inr render \<Rightarrow>
                                      (case render ((data s)\<lparr>errors := ordered\<rparr>) of
                                         Inl e \<Rightarrow>
                                           Some \<lparr>printed = stdout s @ lines, raised = Some e,
                                                 written = Some (i_output_hpp, [])\<rparr>
                                       | Inr text \<Rightarrow>
                                           Some \<lparr>printed = stdout s @ lines, raised = None,
                                                 written = Some (i_output_hpp, text)\<rparr>)))))"

subsection \<open>An example run\<close>

text \<open>
  A file system with one error document, \<^verbatim>\<open>example/xyz/Foo.errors.yaml\<close>. Lines 63 to
  77 give it the namespace \<^verbatim>\<open>xyz/Foo\<close> when the test directory is \<^verbatim>\<open>example/\<close>, and
  \<^verbatim>\<open>/xyz/Foo\<close> when it is \<^verbatim>\<open>example\<close> (the leading separator is removed for the base
  directory only); under any other directory name no document is found.
\<close>

definition example_yaml_files :: "string \<Rightarrow> string \<Rightarrow> (string \<times> string) list" where
  "example_yaml_files i_yaml_dir i_test_dir =
     (if i_test_dir = ''example/'' then [(''example/xyz/Foo.errors.yaml'', ''xyz/Foo'')]
      else if i_test_dir = ''example'' then [(''example/xyz/Foo.errors.yaml'', ''/xyz/Foo'')]
      else if i_yaml_dir = ''example/'' \<or> i_yaml_dir = ''example''
      then [(''example/xyz/Foo.errors.yaml'', ''xyz/Foo'')]
      else [])"

text \<open>
  \<^verbatim>\<open>str\<close> of a record of the error document, for a record whose keys are written in
  the order \<^verbatim>\<open>name\<close>, \<^verbatim>\<open>description\<close> and whose strings have no quote, backslash or
  control character: Python prints the dictionary with its keys and values in single
  quotes.
\<close>

definition py_quote :: "string \<Rightarrow> string" where
  "py_quote s = [CHR 0x27] @ s @ [CHR 0x27]"

definition example_str :: "error_entry \<Rightarrow> string" where
  "example_str error =
     (case (e_name error, e_description error) of
        (None, None) \<Rightarrow> ''{}''
      | (Some nm, None) \<Rightarrow> ''{'' @ py_quote ''name'' @ '': '' @ py_quote nm @ ''}''
      | (None, Some desc) \<Rightarrow> ''{'' @ py_quote ''description'' @ '': '' @ py_quote desc @ ''}''
      | (Some nm, Some desc) \<Rightarrow>
          ''{'' @ py_quote ''name'' @ '': '' @ py_quote nm @ '', '' @
          py_quote ''description'' @ '': '' @ py_quote desc @ ''}'')"

text \<open>
  The environment of the example: the records of the error document, the records of
  its metadata document and the files that exist. The template prints the ordered
  error names, one per line.
\<close>

definition example_env :: "error_entry list \<Rightarrow> meta_entry list \<Rightarrow> string list \<Rightarrow> env" where
  "example_env doc mdoc files =
     \<lparr>get_error_yaml_files = example_yaml_files,
      isfile = (\<lambda>path. path \<in> set files),
      load_errors = (\<lambda>path. doc),
      load_metadata = (\<lambda>path. mdoc),
      str_entry = example_str,
      Template = (\<lambda>path. Inr (\<lambda>d. Inr (concat (map (\<lambda>e. e @ [CHR 0x0A]) (errors d)))))\<rparr>"

definition example_files :: "string list" where
  "example_files =
     [''example/xyz/Foo.errors.yaml'', ''example/xyz/Foo.metadata.yaml'',
      ''templates/elog-gen-template.mako.hpp'']"

definition device_error :: error_entry where
  "device_error = \<lparr>e_name = Some ''Device'', e_description = Some ''A device failed ''\<rparr>"

definition timeout_error :: error_entry where
  "timeout_error = \<lparr>e_name = Some ''Timeout'', e_description = None\<rparr>"

definition nameless_error :: error_entry where
  "nameless_error = \<lparr>e_name = None, e_description = Some ''no name''\<rparr>"

definition errno_field :: meta_field where
  "errno_field = \<lparr>f_str = ''ERRNO=%d'', f_type = ''int32'', f_process = Some (YBool True)\<rparr>"

definition float_field :: meta_field where
  "float_field = \<lparr>f_str = ''RATIO=%f'', f_type = ''float'', f_process = None\<rparr>"

definition device_meta :: "string list option \<Rightarrow> meta_entry" where
  "device_meta inh =
     \<lparr>m_name = ''Device'', m_level = None, m_inherits = inh, m_meta = Some [errno_field]\<rparr>"

definition device_meta_float :: meta_entry where
  "device_meta_float =
     \<lparr>m_name = ''Device'', m_level = None, m_inherits = None, m_meta = Some [float_field]\<rparr>"

section \<open>Properties of the passes\<close>

lemma parent_of_Some_iff:
  "parent_of ps e = Some p \<longleftrightarrow> ps e = Some (Some p) \<and> p \<noteq> []"
  by (auto simp: parent_of_def split: option.splits)

lemma check_loop_True_iff:
  "check_loop es all ps = Inr (out, True) \<longleftrightarrow>
     out = [] \<and> (\<forall>e \<in> set es. ps e \<noteq> None \<and> (\<forall>p. parent_of ps e = Some p \<longrightarrow> p \<in> set all))"
  by (induction es) (auto simp: parent_of_Some_iff split: option.splits)

lemma has_inheritance_total:
  "\<forall>e \<in> set es. ps e \<noteq> None \<Longrightarrow>
   has_inheritance es ps = Inr (\<exists>e \<in> set es. ps e \<noteq> Some None)"
  by (induction es) (auto split: option.splits)

lemma parents_first_Nil: "parents_first ps []"
  by (simp add: parents_first_def)

lemma parents_first_snoc:
  assumes "parents_first ps acc" and "\<And>p. parent_of ps e = Some p \<Longrightarrow> p \<in> set acc"
  shows "parents_first ps (acc @ [e])"
  unfolding parents_first_def
proof (intro allI impI)
  fix j p
  assume j: "j < length (acc @ [e])" and p: "parent_of ps ((acc @ [e]) ! j) = Some p"
  show "\<exists>i<j. (acc @ [e]) ! i = p"
  proof (cases "j < length acc")
    case True
    then have "(acc @ [e]) ! j = acc ! j" by (simp add: nth_append)
    with p have "parent_of ps (acc ! j) = Some p" by simp
    with assms(1) True obtain i where i: "i < j" "acc ! i = p"
      unfolding parents_first_def by blast
    from i(1) True have "(acc @ [e]) ! i = acc ! i" by (simp add: nth_append)
    with i show ?thesis by auto
  next
    case False
    with j have jl: "j = length acc" by simp
    with p have "parent_of ps e = Some p" by simp
    then have "p \<in> set acc" by (rule assms(2))
    then obtain i where i: "i < length acc" "acc ! i = p" by (auto simp: in_set_conv_nth)
    from i(1) have "(acc @ [e]) ! i = acc ! i" by (simp add: nth_append)
    with i jl show ?thesis by auto
  qed
qed

lemma order_pass_total:
  "\<forall>e \<in> set es. ps e \<noteq> None \<Longrightarrow> \<exists>acc'. order_pass es ps acc = Inr acc'"
  by (induction es arbitrary: acc) (auto split: option.splits)

lemma order_pass_mono:
  "order_pass es ps acc = Inr acc' \<Longrightarrow> length acc \<le> length acc' \<and> set acc \<subseteq> set acc'"
proof (induction es arbitrary: acc)
  case Nil
  then show ?case by simp
next
  case (Cons e es)
  from Cons.prems consider "order_pass es ps acc = Inr acc'" | "order_pass es ps (acc @ [e]) = Inr acc'"
    by (auto split: if_splits option.splits)
  then show ?case
  proof cases
    case 1
    from Cons.IH [OF this] show ?thesis .
  next
    case 2
    from Cons.IH [OF this] show ?thesis by simp
  qed
qed

lemma order_pass_ConsE:
  assumes "order_pass (x # es) ps acc = Inr acc'"
  obtains (skip) "x \<in> set acc \<or> \<not> (\<forall>p. parent_of ps x = Some p \<longrightarrow> p \<in> set acc)"
      and "order_pass es ps acc = Inr acc'"
  | (place) "x \<notin> set acc" and "\<forall>p. parent_of ps x = Some p \<longrightarrow> p \<in> set acc"
      and "order_pass es ps (acc @ [x]) = Inr acc'"
  using assms by (auto simp: parent_of_Some_iff split: if_splits option.splits)

lemma order_pass_inv:
  "order_pass es ps acc = Inr acc' \<Longrightarrow> distinct acc \<Longrightarrow> parents_first ps acc \<Longrightarrow>
   set acc \<subseteq> S \<Longrightarrow> set es \<subseteq> S \<Longrightarrow>
   distinct acc' \<and> parents_first ps acc' \<and> set acc' \<subseteq> S"
proof (induction es arbitrary: acc)
  case Nil
  then show ?case by simp
next
  case (Cons e es)
  from Cons.prems(1) show ?case
  proof (cases rule: order_pass_ConsE)
    case skip
    from Cons.IH [OF skip(2)] Cons.prems show ?thesis by simp
  next
    case place
    have "parents_first ps (acc @ [e])"
      using Cons.prems(3) place(2) by (intro parents_first_snoc) auto
    with Cons.IH [OF place(3)] place(1) Cons.prems show ?thesis by simp
  qed
qed

lemma order_pass_progress:
  "order_pass es ps acc = Inr acc' \<Longrightarrow> e \<in> set es \<Longrightarrow> e \<notin> set acc \<Longrightarrow>
   (\<forall>p. parent_of ps e = Some p \<longrightarrow> p \<in> set acc) \<Longrightarrow> length acc < length acc'"
proof (induction es arbitrary: acc)
  case Nil
  then show ?case by simp
next
  case (Cons x es)
  from Cons.prems(1) show ?case
  proof (cases rule: order_pass_ConsE)
    case skip
    from skip(1) Cons.prems(3,4) have "x \<noteq> e" by blast
    with Cons.prems(2) have "e \<in> set es" by simp
    from Cons.IH [OF skip(2) this Cons.prems(3,4)] show ?thesis .
  next
    case place
    from order_pass_mono [OF place(3)] show ?thesis by simp
  qed
qed

lemma ready_exists:
  assumes dist: "distinct es" and valid: "\<forall>e \<in> set es. \<forall>p. parent_of ps e = Some p \<longrightarrow> p \<in> set es"
    and acyc: "no_parent_cycles es ps" and sub: "set acc \<subseteq> set es" and dacc: "distinct acc"
    and less: "length acc < length es"
  shows "\<exists>e \<in> set es. e \<notin> set acc \<and> (\<forall>p. parent_of ps e = Some p \<longrightarrow> p \<in> set acc)"
proof -
  let ?r = "set (parent_edges es ps)"
  have edge: "(e, p) \<in> ?r \<longleftrightarrow> e \<in> set es \<and> parent_of ps e = Some p" for e p
    by (force simp: parent_edges_def List.map_filter_def image_iff)
  have "wf (?r\<inverse>)"
    using acyc unfolding no_parent_cycles_def by (intro finite_acyclic_wf_converse) simp_all
  moreover have "set es - set acc \<noteq> {}"
  proof
    assume "set es - set acc = {}"
    with sub have "set es = set acc" by auto
    then have "card (set es) = card (set acc)" by simp
    with dist dacc have "length es = length acc" by (simp add: distinct_card)
    with less show False by simp
  qed
  then obtain x where "x \<in> set es - set acc" by blast
  ultimately obtain z where z: "z \<in> set es - set acc"
    and zmin: "\<And>y. (y, z) \<in> ?r\<inverse> \<Longrightarrow> y \<notin> set es - set acc"
    by (rule wfE_min) blast
  have "\<forall>p. parent_of ps z = Some p \<longrightarrow> p \<in> set acc"
  proof (intro allI impI)
    fix p assume p: "parent_of ps z = Some p"
    with z have "(z, p) \<in> ?r" by (simp add: edge)
    then have "p \<notin> set es - set acc" using zmin by blast
    moreover from valid z p have "p \<in> set es" by blast
    ultimately show "p \<in> set acc" by simp
  qed
  with z show ?thesis by blast
qed


lemma distinct_subset_length:
  "distinct xs \<Longrightarrow> set xs \<subseteq> set ys \<Longrightarrow> length xs \<le> length ys"
  by (metis card_length card_mono distinct_card finite_set le_trans)

lemma order_loop_result:
  assumes dist: "distinct es" and ent: "\<forall>e \<in> set es. ps e \<noteq> None"
    and valid: "\<forall>e \<in> set es. \<forall>p. parent_of ps e = Some p \<longrightarrow> p \<in> set es"
    and acyc: "no_parent_cycles es ps"
  shows "distinct acc \<Longrightarrow> parents_first ps acc \<Longrightarrow> set acc \<subseteq> set es \<Longrightarrow>
    \<exists>r. order_loop es ps acc = Some (Inr r) \<and> distinct r \<and> parents_first ps r
        \<and> set r \<subseteq> set es \<and> length r = length es"
proof (induction "length es - length acc" arbitrary: acc rule: less_induct)
  case less
  have le: "length acc \<le> length es"
    using less.prems by (intro distinct_subset_length) simp_all
  show ?case
  proof (cases "length acc < length es")
    case False
    with le have "length acc = length es" by simp
    with False less.prems show ?thesis by (subst order_loop.simps) simp
  next
    case True
    from order_pass_total [OF ent] obtain acc' where run: "order_pass es ps acc = Inr acc'"
      by blast
    from order_pass_inv [OF run less.prems(1,2,3)]
    have inv: "distinct acc'" "parents_first ps acc'" "set acc' \<subseteq> set es" by simp_all
    from ready_exists [OF dist valid acyc less.prems(3,1) True]
    obtain e where "e \<in> set es" "e \<notin> set acc" "\<forall>p. parent_of ps e = Some p \<longrightarrow> p \<in> set acc"
      by blast
    from order_pass_progress [OF run this] have grow: "length acc < length acc'" .
    have "length acc' \<le> length es"
      using inv by (intro distinct_subset_length) simp_all
    with grow have "length es - length acc' < length es - length acc" by simp
    from less.hyps [OF this inv]
    obtain r where "order_loop es ps acc' = Some (Inr r)" "distinct r" "parents_first ps r"
      "set r \<subseteq> set es" "length r = length es" by blast
    moreover from True run have "order_loop es ps acc = order_loop es ps acc'"
      by (subst order_loop.simps) simp
    ultimately show ?thesis by simp
  qed
qed

lemma distinct_same_length_mset:
  assumes "distinct r" "distinct es" "set r \<subseteq> set es" "length r = length es"
  shows "mset r = mset es"
proof -
  have "card (set r) = card (set es)" using assms by (simp add: distinct_card)
  with assms(3) have "set r = set es" by (intro card_subset_eq) simp_all
  with assms(1,2) show ?thesis by (simp add: set_eq_iff_mset_eq_distinct)
qed

lemma order_inherited_errors_result:
  assumes dist: "distinct es"
    and chk: "check_error_inheritance es ps = Inr (out, True)"
    and acyc: "no_parent_cycles es ps"
  shows "\<exists>r. order_inherited_errors es ps = Some (Inr r) \<and> mset r = mset es
           \<and> parents_first ps r"
proof -
  from chk have ent: "\<forall>e \<in> set es. ps e \<noteq> None"
    and valid: "\<forall>e \<in> set es. \<forall>p. parent_of ps e = Some p \<longrightarrow> p \<in> set es"
    by (simp_all add: check_error_inheritance_def check_loop_True_iff)
  show ?thesis
  proof (cases "\<exists>e \<in> set es. ps e \<noteq> Some None")
    case True
    from order_loop_result [OF dist ent valid acyc, of "[]"]
    obtain r where r: "order_loop es ps [] = Some (Inr r)" "distinct r" "parents_first ps r"
      "set r \<subseteq> set es" "length r = length es"
      by (auto simp: parents_first_Nil)
    from r(2) dist r(4,5) have "mset r = mset es" by (rule distinct_same_length_mset)
    with r(1,3) True show ?thesis
      by (simp add: order_inherited_errors_def has_inheritance_total [OF ent])
  next
    case False
    then have none: "\<forall>e \<in> set es. ps e = Some None" by blast
    have "parents_first ps es"
      unfolding parents_first_def using none by (simp add: parent_of_def)
    with False show ?thesis
      by (simp add: order_inherited_errors_def has_inheritance_total [OF ent])
  qed
qed

lemma order_loop_stuck:
  assumes "order_pass es ps acc = Inr acc" and "length acc < length es"
  shows "order_loop es ps acc = None"
proof (rule ccontr)
  assume "order_loop es ps acc \<noteq> None"
  then obtain y where y: "order_loop es ps acc = Some y" by blast
  have "\<not> (order_pass es ps acc = Inr acc \<and> length acc < length es)"
  proof (rule order_loop.raw_induct
      [where P = "\<lambda>es ps acc y. \<not> (order_pass es ps acc = Inr acc \<and> length acc < length es)",
        OF _ y])
    fix f :: "string list \<Rightarrow> parents \<Rightarrow> string list \<Rightarrow> (py_error + string list) option"
    fix xs qs zs y'
    assume IH: "\<And>xs qs zs y'. f xs qs zs = Some y' \<Longrightarrow>
        \<not> (order_pass xs qs zs = Inr zs \<and> length zs < length xs)"
    assume body: "(if length zs < length xs
        then (case order_pass xs qs zs of Inl e \<Rightarrow> Some (Inl e) | Inr errors' \<Rightarrow> f xs qs errors')
        else Some (Inr zs)) = Some y'"
    show "\<not> (order_pass xs qs zs = Inr zs \<and> length zs < length xs)"
    proof
      assume stuck: "order_pass xs qs zs = Inr zs \<and> length zs < length xs"
      with body have "f xs qs zs = Some y'" by simp
      from IH [OF this] stuck show False by blast
    qed
  qed
  with assms show False by blast
qed

lemma check_loop_self_parent:
  "e \<in> set all \<Longrightarrow> ps e = Some (Some e) \<Longrightarrow>
   check_loop es all (ps(e \<mapsto> None)) = check_loop es all ps"
  by (induction es) (auto split: option.splits)

section \<open>Properties of strings\<close>

lemma py_replace_match:
  assumes "old \<noteq> []"
  shows "py_replace old new (old @ s) = new @ py_replace old new s"
proof (cases old)
  case Nil
  with assms show ?thesis by simp
next
  case (Cons c cs)
  have "py_replace old new (c # (cs @ s)) =
      (if take (length old) (c # (cs @ s)) = old
       then new @ py_replace old new (drop (length old) (c # (cs @ s)))
       else c # py_replace old new (cs @ s))"
    using assms by (simp only: py_replace.simps if_False)
  moreover have "c # (cs @ s) = old @ s" using Cons by simp
  ultimately show ?thesis by simp
qed

lemma py_replace_no_match:
  assumes "old \<noteq> []" and "take (length old) (c # cs) \<noteq> old"
  shows "py_replace old new (c # cs) = c # py_replace old new cs"
  using assms by (simp only: py_replace.simps if_False)

lemma errors_no_border:
  assumes "a \<noteq> []" and "take (length ''errors'') a \<noteq> ''errors''"
  shows "take (length ''errors'') (a @ ''errors'' @ b) \<noteq> ''errors''"
proof (cases "6 \<le> length a")
  case True
  with assms(2) show ?thesis by simp
next
  case False
  then have "length a < 6" by simp
  moreover from assms(1) have "0 < length a" by simp
  ultimately consider "length a = 1" | "length a = 2" | "length a = 3" | "length a = 4"
    | "length a = 5"
    by arith
  then show ?thesis
  proof cases
    case 1
    then obtain c1 where "a = [c1]" by (auto simp: length_Suc_conv)
    then show ?thesis by auto
  next
    case 2
    then obtain c1 c2 where "a = [c1, c2]" by (auto simp: length_Suc_conv numeral_2_eq_2)
    then show ?thesis by auto
  next
    case 3
    then obtain c1 c2 c3 where "a = [c1, c2, c3]"
      by (auto simp: length_Suc_conv numeral_3_eq_3)
    then show ?thesis by auto
  next
    case 4
    then have "length a = Suc (Suc (Suc (Suc 0)))" by simp
    then obtain c1 c2 c3 c4 where "a = [c1, c2, c3, c4]"
      by (auto simp: length_Suc_conv)
    then show ?thesis by auto
  next
    case 5
    then have "length a = Suc (Suc (Suc (Suc (Suc 0))))" by simp
    then obtain c1 c2 c3 c4 c5 where "a = [c1, c2, c3, c4, c5]"
      by (auto simp: length_Suc_conv)
    then show ?thesis by auto
  qed
qed


lemma py_replace_append:
  assumes ne: "old \<noteq> []"
    and nb: "\<And>a b. a \<noteq> [] \<Longrightarrow> take (length old) a \<noteq> old \<Longrightarrow>
               take (length old) (a @ old @ b) \<noteq> old"
  shows "py_replace old m (a @ old @ b) = py_replace old m a @ m @ py_replace old m b"
proof (induction a rule: length_induct)
  case (1 a)
  show ?case
  proof (cases a)
    case Nil
    with py_replace_match [OF ne, of m b] ne show ?thesis by simp
  next
    case (Cons c a')
    show ?thesis
    proof (cases "take (length old) a = old")
      case True
      define a2 where "a2 = drop (length old) a"
      from True have a: "a = old @ a2"
        unfolding a2_def by (metis append_take_drop_id)
      have len: "length a2 < length a" using Cons ne by (simp add: a2_def)
      have "py_replace old m (a @ old @ b) = py_replace old m (old @ (a2 @ old @ b))"
        by (simp add: a)
      also have "\<dots> = m @ py_replace old m (a2 @ old @ b)"
        by (rule py_replace_match [OF ne])
      also have "py_replace old m (a2 @ old @ b) = py_replace old m a2 @ m @ py_replace old m b"
        using 1 len by blast
      finally show ?thesis
        using py_replace_match [OF ne, of m a2] by (simp add: a)
    next
      case False
      have "a \<noteq> []" using Cons by simp
      from nb [OF this False]
      have "take (length old) (c # (a' @ old @ b)) \<noteq> old" using Cons by simp
      from py_replace_no_match [OF ne this]
      have "py_replace old m (a @ old @ b) = c # py_replace old m (a' @ old @ b)"
        using Cons by simp
      also have "py_replace old m (a' @ old @ b) = py_replace old m a' @ m @ py_replace old m b"
        using 1 Cons by simp
      finally show ?thesis
        using py_replace_no_match [OF ne, of c a' m] False Cons by simp
    qed
  qed
qed

lemma py_replace_absent:
  assumes ne: "old \<noteq> []"
  shows "\<not> (\<exists>a b. s = a @ old @ b) \<Longrightarrow> py_replace old m s = s"
proof (induction s)
  case Nil
  with ne show ?case by simp
next
  case (Cons c s)
  have "take (length old) (c # s) \<noteq> old"
  proof
    assume "take (length old) (c # s) = old"
    then have "c # s = [] @ old @ drop (length old) (c # s)"
      by (metis append_Nil append_take_drop_id)
    with Cons.prems show False by blast
  qed
  from py_replace_no_match [OF ne this]
  have step: "py_replace old m (c # s) = c # py_replace old m s" .
  have "\<not> (\<exists>a b. s = a @ old @ b)"
  proof
    assume "\<exists>a b. s = a @ old @ b"
    then obtain a b where "s = a @ old @ b" by blast
    then have "c # s = (c # a) @ old @ b" by simp
    with Cons.prems show False by blast
  qed
  from Cons.IH [OF this] step show ?case by simp
qed

lemma replace_errors_append:
  "py_replace ''errors'' m (a @ ''errors'' @ b)
     = py_replace ''errors'' m a @ m @ py_replace ''errors'' m b"
proof (rule py_replace_append)
  show "''errors'' \<noteq> []" by simp
next
  fix a b :: string
  assume "a \<noteq> []" and "take (length ''errors'') a \<noteq> ''errors''"
  then show "take (length ''errors'') (a @ ''errors'' @ b) \<noteq> ''errors''"
    by (rule errors_no_border)
qed




section \<open>Properties of validation, loader and driver\<close>

lemmas example_simps = example_env_def example_yaml_files_def example_str_def py_quote_def
  example_files_def device_error_def timeout_error_def nameless_error_def errno_field_def
  float_field_def device_meta_def device_meta_float_def initial_state_def get_elog_data_def
  load_error_def load_meta_field_def get_cpp_type_def typeMap_def split_first_def
  get_meta_yaml_file_def check_error_inheritance_def Let_def py_strip_def py_whitespace_def
  lstrip.simps

lemma check_loop_first_violation:
  assumes "\<forall>x \<in> set pre. \<exists>po. ps x = Some po \<and> (\<forall>q. po = Some q \<and> q \<noteq> [] \<longrightarrow> q \<in> set all)"
    and "ps e = Some (Some p)" and "p \<noteq> []" and "p \<notin> set all"
  shows "check_loop (pre @ e # post) all ps
           = Inr ([e @ '' inherits '' @ p @ '' but the latter is not defined''], False)"
  using assms by (induction pre) (auto split: option.splits)

lemma check_loop_True_iff':
  "check_loop es all ps = Inr ([], True) \<longleftrightarrow>
     (\<forall>e \<in> set es. \<exists>po. ps e = Some po \<and> (\<forall>p. po = Some p \<and> p \<noteq> [] \<longrightarrow> p \<in> set all))"
  by (induction es) (auto split: option.splits)

lemma load_error_nameless:
  "e_name error = None \<Longrightarrow>
   load_error ev i_elog_yaml i_elog_meta_yaml i_namespace error s =
     Inl (SystemExit 1,
          s\<lparr>stdout := stdout s @
              [''Error - Did not find name in entry '' @ str_entry ev error @
               '' in file '' @ i_elog_yaml @ '' '']\<rparr>)"
  by (simp add: load_error_def)

lemma load_error_list_append:
  "load_error_list ev y m n (pre @ rest) s =
     (case load_error_list ev y m n pre s of
        Inl f \<Rightarrow> Inl f
      | Inr s' \<Rightarrow> load_error_list ev y m n rest s')"
  by (induction pre arbitrary: s) (auto split: sum.splits)

lemma load_error_list_nameless_fails:
  "error \<in> set doc \<Longrightarrow> e_name error = None \<Longrightarrow> \<exists>f. load_error_list ev y m n doc s = Inl f"
proof (induction doc arbitrary: s)
  case Nil
  then show ?case by simp
next
  case (Cons x doc)
  show ?case
  proof (cases "load_error ev y m n x s")
    case (Inl f)
    then show ?thesis by simp
  next
    case (Inr s')
    have "x \<noteq> error"
    proof
      assume "x = error"
      with Inr load_error_nameless [OF Cons.prems(2), of ev y m n s] show False by simp
    qed
    with Cons.prems have "error \<in> set doc" by auto
    from Cons.IH [OF this Cons.prems(2), of s'] Inr show ?thesis by simp
  qed
qed

lemma load_documents_nameless_fails:
  "(yaml, ns) \<in> set docs \<Longrightarrow> error \<in> set (load_errors ev yaml) \<Longrightarrow> e_name error = None \<Longrightarrow>
   \<exists>f. load_documents ev tp docs s = Inl f"
proof (induction docs arbitrary: s)
  case Nil
  then show ?case by simp
next
  case (Cons d docs)
  obtain y n where d: "d = (y, n)" by (cases d)
  show ?case
  proof (cases "(y, n) = (yaml, ns)")
    case True
    from load_error_list_nameless_fails [OF Cons.prems(2,3)]
    obtain f where "get_elog_data ev yaml (get_meta_yaml_file yaml) ns s = Inl f"
      unfolding get_elog_data_def by blast
    with True d show ?thesis by simp
  next
    case False
    with Cons.prems(1) d have "(yaml, ns) \<in> set docs" by auto
    from Cons.IH [OF this Cons.prems(2,3)] d show ?thesis
      by (auto split: sum.splits)
  qed
qed

lemma gen_elog_hpp_load_failure:
  assumes "load_documents ev (td @ ''/'' @ mako) (get_error_yaml_files ev yd ud) initial_state = Inl f"
  shows "gen_elog_hpp ev yd ud out td mako
           = Some \<lparr>printed = stdout (snd f), raised = Some (fst f), written = None\<rparr>"
  using assms by (cases f) (simp add: gen_elog_hpp_def)





section \<open>Ordering and validation: the claims\<close>

text \<open>
  Claim C1, as amended. For every batch of pairwise distinct error names whose parent
  map passes \<open>check_error_inheritance\<close> and has no parent cycle,
  \<open>order_inherited_errors\<close> returns a permutation of the input list in which, for every
  error whose parent is neither null nor the empty string, the parent stands at a
  strictly smaller index; and the errors A (no parent), B (parent A), C (parent B)
  given as [C, A, B] come out as [A, B, C].
\<close>

theorem order_inherited_errors_parents_precede:
  assumes "distinct es"
    and "check_error_inheritance es ps = Inr ([], True)"
    and "no_parent_cycles es ps"
  shows "(\<exists>r. order_inherited_errors es ps = Some (Inr r) \<and> mset r = mset es \<and>
            (\<forall>j < length r. \<forall>p. ps (r ! j) = Some (Some p) \<and> p \<noteq> [] \<longrightarrow>
               (\<exists>i < j. r ! i = p)))
       \<and> order_inherited_errors [''C'', ''A'', ''B'']
            [''A'' \<mapsto> None, ''B'' \<mapsto> Some ''A'', ''C'' \<mapsto> Some ''B'']
          = Some (Inr [''A'', ''B'', ''C''])"
proof
  from order_inherited_errors_result [OF assms]
  obtain r where r: "order_inherited_errors es ps = Some (Inr r)" "mset r = mset es"
    "parents_first ps r" by blast
  from r(3) have "\<forall>j < length r. \<forall>p. ps (r ! j) = Some (Some p) \<and> p \<noteq> [] \<longrightarrow>
      (\<exists>i < j. r ! i = p)"
    unfolding parents_first_def parent_of_Some_iff by blast
  with r(1,2) show "\<exists>r. order_inherited_errors es ps = Some (Inr r) \<and> mset r = mset es \<and>
      (\<forall>j < length r. \<forall>p. ps (r ! j) = Some (Some p) \<and> p \<noteq> [] \<longrightarrow> (\<exists>i < j. r ! i = p))"
    by blast
next
  show "order_inherited_errors [''C'', ''A'', ''B'']
            [''A'' \<mapsto> None, ''B'' \<mapsto> Some ''A'', ''C'' \<mapsto> Some ''B'']
          = Some (Inr [''A'', ''B'', ''C''])"
    by (simp add: order_inherited_errors_def order_loop.simps)
qed

theorem order_inherited_errors_parents_precede_witness:
  "distinct [''C'', ''A'', ''B'']
   \<and> check_error_inheritance [''C'', ''A'', ''B'']
        [''A'' \<mapsto> None, ''B'' \<mapsto> Some ''A'', ''C'' \<mapsto> Some ''B''] = Inr ([], True)
   \<and> no_parent_cycles [''C'', ''A'', ''B'']
        [''A'' \<mapsto> None, ''B'' \<mapsto> Some ''A'', ''C'' \<mapsto> Some ''B'']
   \<and> (\<exists>r. order_inherited_errors [''C'', ''A'', ''B'']
             [''A'' \<mapsto> None, ''B'' \<mapsto> Some ''A'', ''C'' \<mapsto> Some ''B''] = Some (Inr r)
          \<and> mset r = mset [''C'', ''A'', ''B''])"
proof -
  let ?es = "[''C'', ''A'', ''B'']"
  let ?ps = "[''A'' \<mapsto> None, ''B'' \<mapsto> Some ''A'', ''C'' \<mapsto> Some ''B'']"
  have h1: "distinct ?es" by simp
  have h2: "check_error_inheritance ?es ?ps = Inr ([], True)"
    by (simp add: check_error_inheritance_def)
  have h3: "no_parent_cycles ?es ?ps" by code_simp
  from order_inherited_errors_parents_precede [OF h1 h2 h3] h1 h2 h3
  show ?thesis by blast
qed

text \<open>
  The claim as stated fails on a batch that names an error twice (the loop never
  places as many errors as the list has), and on a parent that is the empty string
  (validation and ordering treat it as no parent).
\<close>

theorem order_inherited_errors_parents_precede_counterexample:
  "check_error_inheritance [''A'', ''A'', ''B''] [''A'' \<mapsto> None, ''B'' \<mapsto> Some ''A'']
     = Inr ([], True)
   \<and> no_parent_cycles [''A'', ''A'', ''B''] [''A'' \<mapsto> None, ''B'' \<mapsto> Some ''A'']
   \<and> order_inherited_errors [''A'', ''A'', ''B''] [''A'' \<mapsto> None, ''B'' \<mapsto> Some ''A''] = None
   \<and> check_error_inheritance [''B''] [''B'' \<mapsto> Some []] = Inr ([], True)
   \<and> no_parent_cycles [''B''] [''B'' \<mapsto> Some []]
   \<and> order_inherited_errors [''B''] [''B'' \<mapsto> Some []] = Some (Inr [''B''])
   \<and> [] \<notin> set [''B'']"
proof -
  let ?es = "[''A'', ''A'', ''B'']" and ?ps = "[''A'' \<mapsto> None, ''B'' \<mapsto> Some ''A'']"
  have "order_loop ?es ?ps [''A'', ''B''] = None"
    by (rule order_loop_stuck) simp_all
  then have "order_loop ?es ?ps [] = None"
    by (subst order_loop.simps) simp
  then have a: "order_inherited_errors ?es ?ps = None"
    by (simp add: order_inherited_errors_def)
  have b: "check_error_inheritance ?es ?ps = Inr ([], True)"
    by (simp add: check_error_inheritance_def)
  have c: "no_parent_cycles ?es ?ps" by code_simp
  have d: "check_error_inheritance [''B''] [''B'' \<mapsto> Some []] = Inr ([], True)"
    by (simp add: check_error_inheritance_def)
  have e: "no_parent_cycles [''B''] [''B'' \<mapsto> Some []]" by code_simp
  have f: "order_inherited_errors [''B''] [''B'' \<mapsto> Some []] = Some (Inr [''B''])"
    by (simp add: order_inherited_errors_def order_loop.simps)
  from a b c d e f show ?thesis by simp
qed

text \<open>
  Claim C2, as amended. For every batch of pairwise distinct error names that passes
  \<open>check_error_inheritance\<close> and has no parent cycle, the restart-scan loop ends with
  every error placed, and \<open>order_inherited_errors\<close> returns. Validation does not
  exclude cycles: that is a hypothesis here.
\<close>

theorem order_inherited_errors_terminates:
  assumes "distinct es"
    and "check_error_inheritance es ps = Inr ([], True)"
    and "no_parent_cycles es ps"
  shows "(\<exists>r. order_loop es ps [] = Some (Inr r) \<and> set r = set es \<and> length r = length es)
       \<and> (\<exists>r. order_inherited_errors es ps = Some (Inr r))"
proof
  from assms(2) have ent: "\<forall>e \<in> set es. ps e \<noteq> None"
    and valid: "\<forall>e \<in> set es. \<forall>p. parent_of ps e = Some p \<longrightarrow> p \<in> set es"
    by (simp_all add: check_error_inheritance_def check_loop_True_iff)
  from order_loop_result [OF assms(1) ent valid assms(3), of "[]"]
  obtain r where r: "order_loop es ps [] = Some (Inr r)" "distinct r"
    "set r \<subseteq> set es" "length r = length es"
    by (auto simp: parents_first_Nil)
  from r(2) assms(1) r(3,4) have "mset r = mset es" by (rule distinct_same_length_mset)
  then have "set r = set es" by (rule mset_eq_setD)
  with r(1,4) show "\<exists>r. order_loop es ps [] = Some (Inr r) \<and> set r = set es \<and> length r = length es"
    by blast
next
  from order_inherited_errors_result [OF assms]
  show "\<exists>r. order_inherited_errors es ps = Some (Inr r)" by blast
qed

theorem order_inherited_errors_terminates_witness:
  "distinct [''B'', ''A'']
   \<and> check_error_inheritance [''B'', ''A''] [''A'' \<mapsto> None, ''B'' \<mapsto> Some ''A''] = Inr ([], True)
   \<and> no_parent_cycles [''B'', ''A''] [''A'' \<mapsto> None, ''B'' \<mapsto> Some ''A'']
   \<and> (\<exists>r. order_inherited_errors [''B'', ''A''] [''A'' \<mapsto> None, ''B'' \<mapsto> Some ''A'']
            = Some (Inr r))"
proof -
  let ?es = "[''B'', ''A'']" and ?ps = "[''A'' \<mapsto> None, ''B'' \<mapsto> Some ''A'']"
  have h1: "distinct ?es" by simp
  have h2: "check_error_inheritance ?es ?ps = Inr ([], True)"
    by (simp add: check_error_inheritance_def)
  have h3: "no_parent_cycles ?es ?ps" by code_simp
  from order_inherited_errors_terminates [OF h1 h2 h3] h1 h2 h3
  show ?thesis by blast
qed

text \<open>
  The claim as stated fails: a self-referential parent and a cycle of two errors pass
  validation and the ordering never returns; so does a batch that passes validation
  and names an error twice.
\<close>

theorem order_inherited_errors_terminates_counterexample:
  "check_error_inheritance [''A''] [''A'' \<mapsto> Some ''A''] = Inr ([], True)
   \<and> order_inherited_errors [''A''] [''A'' \<mapsto> Some ''A''] = None
   \<and> check_error_inheritance [''A'', ''B''] [''A'' \<mapsto> Some ''B'', ''B'' \<mapsto> Some ''A'']
       = Inr ([], True)
   \<and> order_inherited_errors [''A'', ''B''] [''A'' \<mapsto> Some ''B'', ''B'' \<mapsto> Some ''A''] = None
   \<and> check_error_inheritance [''B'', ''A'', ''B''] [''A'' \<mapsto> None, ''B'' \<mapsto> Some ''A'']
       = Inr ([], True)
   \<and> no_parent_cycles [''B'', ''A'', ''B''] [''A'' \<mapsto> None, ''B'' \<mapsto> Some ''A'']
   \<and> order_inherited_errors [''B'', ''A'', ''B''] [''A'' \<mapsto> None, ''B'' \<mapsto> Some ''A''] = None"
proof -
  have "order_loop [''A''] [''A'' \<mapsto> Some ''A''] [] = None"
    by (rule order_loop_stuck) simp_all
  then have a: "order_inherited_errors [''A''] [''A'' \<mapsto> Some ''A''] = None"
    by (simp add: order_inherited_errors_def)
  have "order_loop [''A'', ''B''] [''A'' \<mapsto> Some ''B'', ''B'' \<mapsto> Some ''A''] [] = None"
    by (rule order_loop_stuck) simp_all
  then have b: "order_inherited_errors [''A'', ''B''] [''A'' \<mapsto> Some ''B'', ''B'' \<mapsto> Some ''A'']
      = None"
    by (simp add: order_inherited_errors_def)
  let ?es = "[''B'', ''A'', ''B'']" and ?ps = "[''A'' \<mapsto> None, ''B'' \<mapsto> Some ''A'']"
  have "order_loop ?es ?ps [''A'', ''B''] = None"
    by (rule order_loop_stuck) simp_all
  then have "order_loop ?es ?ps [] = None"
    by (subst order_loop.simps) simp
  then have c: "order_inherited_errors ?es ?ps = None"
    by (simp add: order_inherited_errors_def)
  have d: "no_parent_cycles ?es ?ps" by code_simp
  from a b c d show ?thesis by (simp add: check_error_inheritance_def)
qed

text \<open>
  Claim C3, as amended. \<open>check_error_inheritance\<close> does not reject a self-referential
  parent: an error whose parent is its own name is validated exactly as if it had no
  parent, so such a batch passes whenever its other parent references resolve.
\<close>

theorem check_error_inheritance_self_parent:
  assumes "e \<in> set es" and "ps e = Some (Some e)"
  shows "check_error_inheritance es ps = check_error_inheritance es (ps(e \<mapsto> None))"
  using assms by (simp add: check_error_inheritance_def check_loop_self_parent)

theorem check_error_inheritance_self_parent_witness:
  "''Foo'' \<in> set [''Foo'', ''Bar'']
   \<and> [''Foo'' \<mapsto> Some ''Foo'', ''Bar'' \<mapsto> Some ''Foo''] ''Foo'' = Some (Some ''Foo'')
   \<and> check_error_inheritance [''Foo'', ''Bar''] [''Foo'' \<mapsto> Some ''Foo'', ''Bar'' \<mapsto> Some ''Foo'']
     = check_error_inheritance [''Foo'', ''Bar'']
         ([''Foo'' \<mapsto> Some ''Foo'', ''Bar'' \<mapsto> Some ''Foo''](''Foo'' \<mapsto> None))"
proof -
  let ?es = "[''Foo'', ''Bar'']" and ?ps = "[''Foo'' \<mapsto> Some ''Foo'', ''Bar'' \<mapsto> Some ''Foo'']"
  have h1: "''Foo'' \<in> set ?es" by simp
  have h2: "?ps ''Foo'' = Some (Some ''Foo'')" by simp
  from check_error_inheritance_self_parent [of "''Foo''" ?es ?ps, OF h1 h2] h1 h2
  show ?thesis by blast
qed

text \<open>
  The claim as stated fails: the batch of the single error \<open>xyz.Foo.Device\<close> whose
  parent is \<open>xyz.Foo.Device\<close> passes validation, with nothing printed; loaded from
  its documents, it reaches the ordering, and the run never returns.
\<close>

theorem check_error_inheritance_self_parent_counterexample:
  "check_error_inheritance [''xyz.Foo.Device''] [''xyz.Foo.Device'' \<mapsto> Some ''xyz.Foo.Device'']
     = Inr ([], True)
   \<and> gen_elog_hpp
       (example_env [device_error] [device_meta (Some [''xyz.Foo.Device''])] example_files)
       ''None'' ''example/'' ''elog-errors.hpp'' ''templates'' ''elog-gen-template.mako.hpp''
     = None"
proof -
  let ?ev = "example_env [device_error] [device_meta (Some [''xyz.Foo.Device''])] example_files"
  have "\<exists>s. load_documents ?ev (''templates'' @ ''/'' @ ''elog-gen-template.mako.hpp'')
          (get_error_yaml_files ?ev ''None'' ''example/'') initial_state = Inr s
      \<and> errors (data s) = [''xyz.Foo.Device'']
      \<and> parents (data s) ''xyz.Foo.Device'' = Some (Some ''xyz.Foo.Device'')"
    by (simp add: example_simps)
  then obtain s where s: "load_documents ?ev (''templates'' @ ''/'' @ ''elog-gen-template.mako.hpp'')
          (get_error_yaml_files ?ev ''None'' ''example/'') initial_state = Inr s"
      "errors (data s) = [''xyz.Foo.Device'']"
      "parents (data s) ''xyz.Foo.Device'' = Some (Some ''xyz.Foo.Device'')"
    by blast
  have chk: "check_error_inheritance (errors (data s)) (parents (data s)) = Inr ([], True)"
    using s(2,3) by (simp add: check_error_inheritance_def)
  have "order_loop [''xyz.Foo.Device''] (parents (data s)) [] = None"
    using s(3) by (intro order_loop_stuck) simp_all
  then have "order_inherited_errors (errors (data s)) (parents (data s)) = None"
    using s(2,3) by (simp add: order_inherited_errors_def)
  with s(1) chk have "gen_elog_hpp ?ev ''None'' ''example/'' ''elog-errors.hpp'' ''templates''
      ''elog-gen-template.mako.hpp'' = None"
    by (simp add: gen_elog_hpp_def)
  then show ?thesis by (simp add: check_error_inheritance_def)
qed

text \<open>
  Claim C6. For every batch in which the parent of every error is null,
  \<open>order_inherited_errors\<close> returns the input list unchanged.
\<close>

theorem order_inherited_errors_no_inheritance:
  assumes "\<forall>e \<in> set es. ps e = Some None"
  shows "order_inherited_errors es ps = Some (Inr es)"
proof -
  from assms have "\<forall>e \<in> set es. ps e \<noteq> None" by simp
  from has_inheritance_total [OF this] assms
  have "has_inheritance es ps = Inr False" by simp
  then show ?thesis by (simp add: order_inherited_errors_def)
qed

theorem order_inherited_errors_no_inheritance_witness:
  "list_all (\<lambda>e. [''A'' \<mapsto> None, ''B'' \<mapsto> None, ''C'' \<mapsto> None] e = Some None)
     [''C'', ''A'', ''B'']
   \<and> order_inherited_errors [''C'', ''A'', ''B''] [''A'' \<mapsto> None, ''B'' \<mapsto> None, ''C'' \<mapsto> None]
       = Some (Inr [''C'', ''A'', ''B''])"
proof -
  have h: "\<forall>e \<in> set [''C'', ''A'', ''B'']. [''A'' \<mapsto> None, ''B'' \<mapsto> None, ''C'' \<mapsto> None] e = Some None"
    by simp
  have "list_all (\<lambda>e. [''A'' \<mapsto> None, ''B'' \<mapsto> None, ''C'' \<mapsto> None] e = Some None)
      [''C'', ''A'', ''B'']"
    by simp
  with order_inherited_errors_no_inheritance [OF h] show ?thesis by (rule conjI [rotated])
qed

section \<open>Validation, loader, type map and file name: the claims\<close>

text \<open>
  Claim C4, as amended. \<open>check_error_inheritance\<close> returns success if and only if
  every error has an entry in the parent map and every parent value that is neither
  null nor the empty string is a member of the error list. On the first error, in list
  order, whose parent is non-empty and not in the list, it returns failure after
  printing a line that names the child and the missing parent; \<open>gen_elog_hpp\<close> then
  prints its own line and exits with status 1: the ordering is not run (the result
  does not depend on it) and no output file is written.
\<close>

theorem check_error_inheritance_dangling:
  "(check_error_inheritance es ps = Inr ([], True) \<longleftrightarrow>
      (\<forall>e \<in> set es. \<exists>po. ps e = Some po \<and> (\<forall>p. po = Some p \<and> p \<noteq> [] \<longrightarrow> p \<in> set es)))
   \<and> (es = pre @ e # post
        \<and> (\<forall>x \<in> set pre. \<exists>po. ps x = Some po \<and> (\<forall>q. po = Some q \<and> q \<noteq> [] \<longrightarrow> q \<in> set es))
        \<and> ps e = Some (Some p) \<and> p \<noteq> [] \<and> p \<notin> set es
      \<longrightarrow> check_error_inheritance es ps
            = Inr ([e @ '' inherits '' @ p @ '' but the latter is not defined''], False))
   \<and> (load_documents ev (i_template_dir @ ''/'' @ i_elog_mako)
          (get_error_yaml_files ev i_yaml_dir i_test_dir) initial_state = Inr s
        \<and> check_error_inheritance (errors (data s)) (parents (data s)) = Inr (lines, False)
      \<longrightarrow> gen_elog_hpp ev i_yaml_dir i_test_dir i_output_hpp i_template_dir i_elog_mako
            = Some \<lparr>printed = stdout s @ lines @ [''Error - failed to validate error inheritance''],
                    raised = Some (SystemExit 1), written = None\<rparr>)"
proof (intro conjI impI)
  show "check_error_inheritance es ps = Inr ([], True) \<longleftrightarrow>
      (\<forall>e \<in> set es. \<exists>po. ps e = Some po \<and> (\<forall>p. po = Some p \<and> p \<noteq> [] \<longrightarrow> p \<in> set es))"
    unfolding check_error_inheritance_def by (rule check_loop_True_iff')
next
  assume a: "es = pre @ e # post
        \<and> (\<forall>x \<in> set pre. \<exists>po. ps x = Some po \<and> (\<forall>q. po = Some q \<and> q \<noteq> [] \<longrightarrow> q \<in> set es))
        \<and> ps e = Some (Some p) \<and> p \<noteq> [] \<and> p \<notin> set es"
  then have "check_loop (pre @ e # post) es ps
      = Inr ([e @ '' inherits '' @ p @ '' but the latter is not defined''], False)"
    by (intro check_loop_first_violation) blast+
  with a show "check_error_inheritance es ps
      = Inr ([e @ '' inherits '' @ p @ '' but the latter is not defined''], False)"
    by (simp add: check_error_inheritance_def)
next
  assume "load_documents ev (i_template_dir @ ''/'' @ i_elog_mako)
          (get_error_yaml_files ev i_yaml_dir i_test_dir) initial_state = Inr s
        \<and> check_error_inheritance (errors (data s)) (parents (data s)) = Inr (lines, False)"
  then show "gen_elog_hpp ev i_yaml_dir i_test_dir i_output_hpp i_template_dir i_elog_mako
            = Some \<lparr>printed = stdout s @ lines @ [''Error - failed to validate error inheritance''],
                    raised = Some (SystemExit 1), written = None\<rparr>"
    by (simp add: gen_elog_hpp_def)
qed

theorem check_error_inheritance_dangling_witness:
  "gen_elog_hpp
     (example_env [device_error, timeout_error] [device_meta (Some [''xyz.Foo.Missing''])]
        example_files)
     ''None'' ''example/'' ''elog-errors.hpp'' ''templates'' ''elog-gen-template.mako.hpp''
   = Some \<lparr>printed =
             [''Error - Did not find error named Timeout in example/xyz/Foo.metadata.yaml'',
              ''xyz.Foo.Device inherits xyz.Foo.Missing but the latter is not defined'',
              ''Error - failed to validate error inheritance''],
           raised = Some (SystemExit 1), written = None\<rparr>
   \<and> check_error_inheritance [''xyz.Foo.Device'', ''xyz.Foo.Timeout'']
        [''xyz.Foo.Device'' \<mapsto> Some ''xyz.Foo.Missing'', ''xyz.Foo.Timeout'' \<mapsto> None]
      = Inr ([''xyz.Foo.Device inherits xyz.Foo.Missing but the latter is not defined''], False)"
proof -
  let ?ev = "example_env [device_error, timeout_error] [device_meta (Some [''xyz.Foo.Missing''])]
        example_files"
  let ?es = "[''xyz.Foo.Device'', ''xyz.Foo.Timeout'']"
  let ?ps = "[''xyz.Foo.Device'' \<mapsto> Some ''xyz.Foo.Missing'', ''xyz.Foo.Timeout'' \<mapsto> None]"
  have "\<exists>s. load_documents ?ev (''templates'' @ ''/'' @ ''elog-gen-template.mako.hpp'')
          (get_error_yaml_files ?ev ''None'' ''example/'') initial_state = Inr s
      \<and> check_error_inheritance (errors (data s)) (parents (data s))
          = Inr ([''xyz.Foo.Device inherits xyz.Foo.Missing but the latter is not defined''], False)
      \<and> stdout s = [''Error - Did not find error named Timeout in example/xyz/Foo.metadata.yaml'']"
    by (simp add: example_simps)
  then obtain s where s: "load_documents ?ev (''templates'' @ ''/'' @ ''elog-gen-template.mako.hpp'')
          (get_error_yaml_files ?ev ''None'' ''example/'') initial_state = Inr s"
      "check_error_inheritance (errors (data s)) (parents (data s))
          = Inr ([''xyz.Foo.Device inherits xyz.Foo.Missing but the latter is not defined''], False)"
      "stdout s = [''Error - Did not find error named Timeout in example/xyz/Foo.metadata.yaml'']"
    by blast
  have pre: "\<forall>x \<in> set []. \<exists>po. ?ps x = Some po \<and> (\<forall>q. po = Some q \<and> q \<noteq> [] \<longrightarrow> q \<in> set ?es)"
    by simp
  have e: "?ps ''xyz.Foo.Device'' = Some (Some ''xyz.Foo.Missing'')" by simp
  have p: "''xyz.Foo.Missing'' \<noteq> [] \<and> ''xyz.Foo.Missing'' \<notin> set ?es" by simp
  have l: "?es = [] @ ''xyz.Foo.Device'' # [''xyz.Foo.Timeout'']" by simp
  note inst = check_error_inheritance_dangling
    [of ?es ?ps "[]" "''xyz.Foo.Device''" "[''xyz.Foo.Timeout'']" "''xyz.Foo.Missing''"
      ?ev "''templates''" "''elog-gen-template.mako.hpp''" "''None''" "''example/''" s
      "[''xyz.Foo.Device inherits xyz.Foo.Missing but the latter is not defined'']"
      "''elog-errors.hpp''"]
  from inst s have "gen_elog_hpp ?ev ''None'' ''example/'' ''elog-errors.hpp'' ''templates''
      ''elog-gen-template.mako.hpp''
    = Some \<lparr>printed = stdout s @
              [''xyz.Foo.Device inherits xyz.Foo.Missing but the latter is not defined''] @
              [''Error - failed to validate error inheritance''],
            raised = Some (SystemExit 1), written = None\<rparr>"
    by blast
  moreover from inst l pre e p have "check_error_inheritance ?es ?ps
      = Inr ([''xyz.Foo.Device'' @ '' inherits '' @ ''xyz.Foo.Missing'' @
              '' but the latter is not defined''], False)"
    by blast
  ultimately show ?thesis using s(3) by simp
qed

text \<open>
  The claim as stated fails for a parent that is the empty string: it is not null
  and not a member of the list, and the batch passes.
\<close>

theorem check_error_inheritance_dangling_counterexample:
  "check_error_inheritance [''xyz.Foo.Device''] [''xyz.Foo.Device'' \<mapsto> Some []] = Inr ([], True)
   \<and> [''xyz.Foo.Device'' \<mapsto> Some []] ''xyz.Foo.Device'' \<noteq> Some None
   \<and> [] \<notin> set [''xyz.Foo.Device'']"
  by (simp add: check_error_inheritance_def)

text \<open>
  Claim C5, at the failing inputs. For an error whose document has no companion
  metadata document, or whose name matches no record of the metadata document, the
  loader stores severity \<open>ERR\<close> and a null parent, and leaves \<open>meta\<close> as it was: the
  error gets no metadata-list entry, not an empty one.
\<close>

theorem load_error_without_metadata:
  assumes "e_name error = Some nm"
    and "\<not> isfile ev i_elog_meta_yaml
         \<or> find (\<lambda>meta_entry. m_name meta_entry = nm) (load_metadata ev i_elog_meta_yaml) = None"
  shows "\<exists>s'. load_error ev i_elog_yaml i_elog_meta_yaml i_namespace error s = Inr s'
           \<and> error_lvl (data s') (py_replace ''/'' ''.'' i_namespace @ ''.'' @ nm) = Some ''ERR''
           \<and> parents (data s') (py_replace ''/'' ''.'' i_namespace @ ''.'' @ nm) = Some None
           \<and> meta (data s') = meta (data s)"
  using assms by (auto simp: load_error_def Let_def split: option.splits)

theorem load_error_without_metadata_witness:
  "\<exists>s'. get_elog_data (example_env [timeout_error] [] [''example/xyz/Foo.errors.yaml''])
            ''example/xyz/Foo.errors.yaml'' ''example/xyz/Foo.metadata.yaml'' ''xyz/Foo''
            initial_state = Inr s'
         \<and> errors (data s') = [''xyz.Foo.Timeout'']
         \<and> error_lvl (data s') ''xyz.Foo.Timeout'' = Some ''ERR''
         \<and> parents (data s') ''xyz.Foo.Timeout'' = Some None
         \<and> meta (data s') ''xyz.Foo.Timeout'' = None"
proof -
  let ?ev = "example_env [timeout_error] [] [''example/xyz/Foo.errors.yaml'']"
  have h1: "e_name timeout_error = Some ''Timeout''" by (simp add: timeout_error_def)
  have h2: "\<not> isfile ?ev ''example/xyz/Foo.metadata.yaml''
      \<or> find (\<lambda>meta_entry. m_name meta_entry = ''Timeout'')
           (load_metadata ?ev ''example/xyz/Foo.metadata.yaml'') = None"
    by (simp add: example_env_def)
  from load_error_without_metadata [OF h1 h2, of "''example/xyz/Foo.errors.yaml''" "''xyz/Foo''"
      initial_state]
  obtain s' where s': "load_error ?ev ''example/xyz/Foo.errors.yaml''
        ''example/xyz/Foo.metadata.yaml'' ''xyz/Foo'' timeout_error initial_state = Inr s'"
    "error_lvl (data s') (py_replace ''/'' ''.'' ''xyz/Foo'' @ ''.'' @ ''Timeout'') = Some ''ERR''"
    "parents (data s') (py_replace ''/'' ''.'' ''xyz/Foo'' @ ''.'' @ ''Timeout'') = Some None"
    "meta (data s') = meta (data initial_state)"
    by blast
  have n: "py_replace ''/'' ''.'' ''xyz/Foo'' @ ''.'' @ ''Timeout'' = ''xyz.Foo.Timeout''"
    by simp
  have "errors (data s') = [''xyz.Foo.Timeout'']"
    using s'(1) by (auto simp: example_simps)
  moreover have "get_elog_data ?ev ''example/xyz/Foo.errors.yaml''
      ''example/xyz/Foo.metadata.yaml'' ''xyz/Foo'' initial_state = Inr s'"
    using s'(1) by (simp add: get_elog_data_def example_env_def)
  moreover have "meta (data s') ''xyz.Foo.Timeout'' = None"
    using s'(4) by (simp add: initial_state_def)
  ultimately show ?thesis using s'(2,3) unfolding n by blast
qed

text \<open>
  Claim C7. \<open>get_cpp_type\<close> maps each of the eight tags to its fixed output name and
  fails with \<open>KeyError\<close> for every other tag; as a function of its argument alone it
  gives the same result for the same tag.
\<close>

theorem get_cpp_type_table:
  "get_cpp_type ''int16'' = Inr ''int16_t''
   \<and> get_cpp_type ''int32'' = Inr ''int32_t''
   \<and> get_cpp_type ''int64'' = Inr ''int64_t''
   \<and> get_cpp_type ''uint16'' = Inr ''uint16_t''
   \<and> get_cpp_type ''uint32'' = Inr ''uint32_t''
   \<and> get_cpp_type ''uint64'' = Inr ''uint64_t''
   \<and> get_cpp_type ''double'' = Inr ''double''
   \<and> get_cpp_type ''string'' = Inr ''const char*''
   \<and> (i_type \<notin> set [''int16'', ''int32'', ''int64'', ''uint16'', ''uint32'', ''uint64'',
                      ''double'', ''string'']
        \<longrightarrow> get_cpp_type i_type = Inl (KeyError i_type))"
  by (simp add: get_cpp_type_def typeMap_def)

theorem get_cpp_type_table_witness:
  "''float'' \<notin> set [''int16'', ''int32'', ''int64'', ''uint16'', ''uint32'', ''uint64'',
                     ''double'', ''string'']
   \<and> get_cpp_type ''float'' = Inl (KeyError ''float'')"
proof -
  have h: "''float'' \<notin> set [''int16'', ''int32'', ''int64'', ''uint16'', ''uint32'', ''uint64'',
                     ''double'', ''string'']" by simp
  with get_cpp_type_table [of "''float''"] show ?thesis by blast
qed

text \<open>
  Claim C8, as amended. For every error document containing a record without the key
  \<open>name\<close>, loading fails, and \<open>gen_elog_hpp\<close> ends with an exception and writes no
  file; when the records before that record load without a fatal fault, the failure is
  exit status 1 after a line naming the record and the file, with the model as the
  earlier records left it: nothing from that record onward is added.
\<close>

theorem get_elog_data_missing_name:
  assumes "error \<in> set (load_errors ev i_elog_yaml)" and "e_name error = None"
  shows "(\<exists>f. get_elog_data ev i_elog_yaml i_elog_meta_yaml i_namespace s = Inl f)
       \<and> (\<forall>pre post s'. load_errors ev i_elog_yaml = pre @ error # post
              \<and> load_error_list ev i_elog_yaml i_elog_meta_yaml i_namespace pre s = Inr s'
            \<longrightarrow> get_elog_data ev i_elog_yaml i_elog_meta_yaml i_namespace s
                 = Inl (SystemExit 1,
                        s'\<lparr>stdout := stdout s' @
                            [''Error - Did not find name in entry '' @ str_entry ev error @
                             '' in file '' @ i_elog_yaml @ '' '']\<rparr>))
       \<and> ((i_elog_yaml, i_namespace) \<in> set (get_error_yaml_files ev i_yaml_dir i_test_dir)
            \<longrightarrow> (\<exists>r. gen_elog_hpp ev i_yaml_dir i_test_dir i_output_hpp i_template_dir i_elog_mako
                        = Some r \<and> written r = None \<and> raised r \<noteq> None))"
proof (intro conjI allI impI)
  from load_error_list_nameless_fails [OF assms]
  show "\<exists>f. get_elog_data ev i_elog_yaml i_elog_meta_yaml i_namespace s = Inl f"
    unfolding get_elog_data_def by blast
next
  fix pre post s'
  assume "load_errors ev i_elog_yaml = pre @ error # post
      \<and> load_error_list ev i_elog_yaml i_elog_meta_yaml i_namespace pre s = Inr s'"
  then show "get_elog_data ev i_elog_yaml i_elog_meta_yaml i_namespace s
      = Inl (SystemExit 1,
             s'\<lparr>stdout := stdout s' @
                 [''Error - Did not find name in entry '' @ str_entry ev error @
                  '' in file '' @ i_elog_yaml @ '' '']\<rparr>)"
    by (simp add: get_elog_data_def load_error_list_append load_error_nameless [OF assms(2)])
next
  assume "(i_elog_yaml, i_namespace) \<in> set (get_error_yaml_files ev i_yaml_dir i_test_dir)"
  from load_documents_nameless_fails [OF this assms]
  obtain f where "load_documents ev (i_template_dir @ ''/'' @ i_elog_mako)
      (get_error_yaml_files ev i_yaml_dir i_test_dir) initial_state = Inl f"
    by blast
  from gen_elog_hpp_load_failure [OF this]
  show "\<exists>r. gen_elog_hpp ev i_yaml_dir i_test_dir i_output_hpp i_template_dir i_elog_mako
      = Some r \<and> written r = None \<and> raised r \<noteq> None"
    by simp
qed

theorem get_elog_data_missing_name_witness:
  "gen_elog_hpp
     (example_env [device_error, nameless_error, timeout_error] [device_meta None] example_files)
     ''None'' ''example/'' ''elog-errors.hpp'' ''templates'' ''elog-gen-template.mako.hpp''
   = Some \<lparr>printed =
             [''Error - Did not find name in entry {'description': 'no name'} in file example/xyz/Foo.errors.yaml ''],
           raised = Some (SystemExit 1), written = None\<rparr>
   \<and> (\<exists>s. get_elog_data
            (example_env [device_error, nameless_error, timeout_error] [device_meta None]
               example_files)
            ''example/xyz/Foo.errors.yaml'' ''example/xyz/Foo.metadata.yaml'' ''xyz/Foo''
            initial_state = Inl (SystemExit 1, s)
          \<and> errors (data s) = [''xyz.Foo.Device''])"
proof -
  let ?ev = "example_env [device_error, nameless_error, timeout_error] [device_meta None]
      example_files"
  have h1: "nameless_error \<in> set (load_errors ?ev ''example/xyz/Foo.errors.yaml'')"
    by (simp add: example_env_def)
  have h2: "e_name nameless_error = None" by (simp add: nameless_error_def)
  have h3: "load_errors ?ev ''example/xyz/Foo.errors.yaml''
      = [device_error] @ nameless_error # [timeout_error]"
    by (simp add: example_env_def)
  have "\<exists>s'. load_error_list ?ev ''example/xyz/Foo.errors.yaml''
      ''example/xyz/Foo.metadata.yaml'' ''xyz/Foo'' [device_error] initial_state = Inr s'
      \<and> errors (data s') = [''xyz.Foo.Device''] \<and> stdout s' = []"
    by (simp add: example_simps)
  then obtain s' where s': "load_error_list ?ev ''example/xyz/Foo.errors.yaml''
      ''example/xyz/Foo.metadata.yaml'' ''xyz/Foo'' [device_error] initial_state = Inr s'"
    "errors (data s') = [''xyz.Foo.Device'']" "stdout s' = []"
    by blast
  note inst = get_elog_data_missing_name [OF h1 h2,
      of "''example/xyz/Foo.metadata.yaml''" "''xyz/Foo''" initial_state]
  from inst h3 s'(1)
  have "get_elog_data ?ev ''example/xyz/Foo.errors.yaml'' ''example/xyz/Foo.metadata.yaml''
      ''xyz/Foo'' initial_state
    = Inl (SystemExit 1,
           s'\<lparr>stdout := stdout s' @
               [''Error - Did not find name in entry '' @ str_entry ?ev nameless_error @
                '' in file '' @ ''example/xyz/Foo.errors.yaml'' @ '' '']\<rparr>)"
    by blast
  with s'(2) have "\<exists>s. get_elog_data ?ev ''example/xyz/Foo.errors.yaml''
      ''example/xyz/Foo.metadata.yaml'' ''xyz/Foo'' initial_state = Inl (SystemExit 1, s)
      \<and> errors (data s) = [''xyz.Foo.Device'']"
    by simp
  moreover have "gen_elog_hpp ?ev ''None'' ''example/'' ''elog-errors.hpp'' ''templates''
      ''elog-gen-template.mako.hpp''
    = Some \<lparr>printed =
             [''Error - Did not find name in entry {'description': 'no name'} in file example/xyz/Foo.errors.yaml ''],
           raised = Some (SystemExit 1), written = None\<rparr>"
    by (simp add: gen_elog_hpp_def example_simps)
  ultimately show ?thesis by blast
qed

text \<open>
  The claim as stated fails when an earlier record ends the run first: with a first
  record whose metadata field has the unknown type \<open>float\<close>, the run ends with
  \<open>KeyError\<close> at line 245, nothing is printed, and the record without \<open>name\<close> is
  never reached.
\<close>

theorem get_elog_data_missing_name_counterexample:
  "nameless_error \<in> set (load_errors
       (example_env [device_error, nameless_error] [device_meta_float] example_files)
       ''example/xyz/Foo.errors.yaml'')
   \<and> e_name nameless_error = None
   \<and> gen_elog_hpp (example_env [device_error, nameless_error] [device_meta_float] example_files)
       ''None'' ''example/'' ''elog-errors.hpp'' ''templates'' ''elog-gen-template.mako.hpp''
     = Some \<lparr>printed = [], raised = Some (KeyError ''float''), written = None\<rparr>"
  by (simp add: gen_elog_hpp_def example_simps)




text \<open>
  Claim C10. \<open>get_meta_yaml_file\<close> replaces every occurrence of \<open>errors\<close> in the path
  by \<open>metadata\<close>: it distributes over an occurrence anywhere in the path, and it
  leaves a path without occurrence unchanged; so a directory named \<open>errors\<close> is
  rewritten too.
\<close>

theorem get_meta_yaml_file_replaces_every_occurrence:
  "get_meta_yaml_file (a @ ''errors'' @ b)
     = get_meta_yaml_file a @ ''metadata'' @ get_meta_yaml_file b
   \<and> (\<not> (\<exists>a b. s = a @ ''errors'' @ b) \<longrightarrow> get_meta_yaml_file s = s)
   \<and> get_meta_yaml_file ''tools/errors/xyz/Foo.errors.yaml''
       = ''tools/metadata/xyz/Foo.metadata.yaml''"
proof (intro conjI impI)
  show "get_meta_yaml_file (a @ ''errors'' @ b)
     = get_meta_yaml_file a @ ''metadata'' @ get_meta_yaml_file b"
    unfolding get_meta_yaml_file_def by (rule replace_errors_append)
next
  assume "\<not> (\<exists>a b. s = a @ ''errors'' @ b)"
  then show "get_meta_yaml_file s = s"
    unfolding get_meta_yaml_file_def by (intro py_replace_absent) simp_all
next
  show "get_meta_yaml_file ''tools/errors/xyz/Foo.errors.yaml''
       = ''tools/metadata/xyz/Foo.metadata.yaml''"
    by (simp add: get_meta_yaml_file_def)
qed

theorem get_meta_yaml_file_replaces_every_occurrence_witness:
  "\<not> (\<exists>a b. ''xyz/Foo.yaml'' = a @ ''errors'' @ b)
   \<and> get_meta_yaml_file ''xyz/Foo.yaml'' = ''xyz/Foo.yaml''
   \<and> get_meta_yaml_file (''a/'' @ ''errors'' @ ''/b.errors.yaml'')
       = get_meta_yaml_file ''a/'' @ ''metadata'' @ get_meta_yaml_file ''/b.errors.yaml''"
proof -
  have h: "\<not> (\<exists>a b. ''xyz/Foo.yaml'' = a @ ''errors'' @ b)"
  proof
    assume "\<exists>a b. ''xyz/Foo.yaml'' = a @ ''errors'' @ b"
    then obtain a b where "''xyz/Foo.yaml'' = a @ ''errors'' @ b" by blast
    then have "set ''xyz/Foo.yaml'' = set (a @ ''errors'' @ b)" by (simp only:)
    then have "CHR ''e'' \<in> set ''xyz/Foo.yaml''" by simp
    then show False by simp
  qed
  from get_meta_yaml_file_replaces_every_occurrence [of "''a/''" "''/b.errors.yaml''" "''xyz/Foo.yaml''"] h
  show ?thesis by blast
qed

end
